theory Spec2Isabelle
  imports Main "HOL-Library.Sublist"
begin

section \<open>Python strings\<close>

text \<open>
  A Python \<open>str\<close> is a sequence of Unicode code points. The source handles the bullet
  character U+2022 and Unicode whitespace, so a character is its code point and a string
  is a list of code points. \<open>ustr\<close> reads an ASCII literal.
\<close>

type_synonym uchar = nat
type_synonym ustring = "uchar list"

definition ustr :: "string \<Rightarrow> ustring" where
  "ustr s = map of_char s"

text \<open>
  \<open>str.isspace\<close> on one character; \<open>\s\<close> of \<open>re\<close> on a \<open>str\<close> pattern, \<open>str.split()\<close> and
  \<open>str.strip()\<close> all use this set.
\<close>

definition is_space :: "uchar \<Rightarrow> bool" where
  "is_space c =
     ((9 \<le> c \<and> c \<le> 13) \<or> (28 \<le> c \<and> c \<le> 32) \<or> c = 133 \<or> c = 160 \<or> c = 5760 \<or>
      (8192 \<le> c \<and> c \<le> 8202) \<or> c = 8232 \<or> c = 8233 \<or> c = 8239 \<or> c = 8287 \<or> c = 12288)"

abbreviation not_space :: "uchar \<Rightarrow> bool" where
  "not_space \<equiv> (\<lambda>c. \<not> is_space c)"

text \<open>\<open>sep.join(xs)\<close>\<close>

fun py_join :: "'a list \<Rightarrow> 'a list list \<Rightarrow> 'a list" where
  "py_join sep [] = []"
| "py_join sep [x] = x"
| "py_join sep (x # y # ys) = x @ sep @ py_join sep (y # ys)"

text \<open>\<open>xs[:n]\<close>: a negative \<open>n\<close> counts from the end.\<close>

definition py_slice_to :: "int \<Rightarrow> 'a list \<Rightarrow> 'a list" where
  "py_slice_to n xs = (if 0 \<le> n then take (nat n) xs else take (length xs - nat (- n)) xs)"

text \<open>
  \<open>s.split()\<close> with no separator: skip whitespace, take the maximal run of other
  characters as a word, repeat; no empty words.
\<close>

function py_split_ws :: "ustring \<Rightarrow> ustring list" where
  "py_split_ws s =
     (case dropWhile is_space s of
        [] \<Rightarrow> []
      | c # cs \<Rightarrow> (c # takeWhile not_space cs) # py_split_ws (dropWhile not_space cs))"
  by pat_completeness auto
termination
proof (relation "measure length")
  show "wf (measure length)" by simp
next
  fix s :: ustring and c cs
  assume a: "dropWhile is_space s = c # cs"
  have "length (dropWhile not_space cs) \<le> length cs"
    by (rule length_dropWhile_le)
  moreover have "length (c # cs) \<le> length s"
    using length_dropWhile_le [of is_space s] a by simp
  ultimately show "(dropWhile not_space cs, s) \<in> measure length"
    by simp
qed

declare py_split_ws.simps [simp del]

text \<open>
  \<open>re.sub(r"\s+", " ", txt)\<close>: scanning from the left, each maximal run of whitespace
  is one match of \<open>\s+\<close> and is replaced by one space (code point 32); every other
  character is copied.
\<close>

function re_sub_ws :: "ustring \<Rightarrow> ustring" where
  "re_sub_ws [] = []"
| "re_sub_ws (c # cs) =
     (if is_space c then 32 # re_sub_ws (dropWhile is_space cs) else c # re_sub_ws cs)"
  by pat_completeness auto
termination
  by (relation "measure length") (auto simp: length_dropWhile_le le_imp_less_Suc)

section \<open>The text normalizer\<close>

text \<open>
  \<^verbatim>\<open>
  def enforce_count(txt, count):
      txt = re.sub(r"\s+", " ", txt)
      words = txt.split()
      if len(words) <= count:
          return txt
      return " ".join(words[:count]) + "..."
  \<close>
\<close>

definition enforce_count :: "ustring \<Rightarrow> int \<Rightarrow> ustring" where
  "enforce_count txt count =
     (let txt' = re_sub_ws txt;
          words = py_split_ws txt'
      in if int (length words) \<le> count then txt'
         else py_join (ustr '' '') (py_slice_to count words) @ ustr ''...'')"

text \<open>
  The contract in the words of the specification: the text is cut into its maximal runs
  of whitespace and of other characters, and every whitespace run becomes one space.
\<close>

fun runs :: "('a \<Rightarrow> bool) \<Rightarrow> 'a list \<Rightarrow> 'a list list" where
  "runs P [] = []"
| "runs P (x # xs) =
     (case runs P xs of
        [] \<Rightarrow> [[x]]
      | [] # rs \<Rightarrow> [x] # rs
      | (y # r) # rs \<Rightarrow> (if P x = P y then (x # y # r) # rs else [x] # (y # r) # rs))"

definition collapse_whitespace_runs :: "ustring \<Rightarrow> ustring" where
  "collapse_whitespace_runs t =
     concat (map (\<lambda>r. case r of [] \<Rightarrow> [] | y # _ \<Rightarrow> if is_space y then [32] else r)
                 (runs is_space t))"

text \<open>A text in which whitespace occurs only as single space characters.\<close>

fun single_spaced :: "ustring \<Rightarrow> bool" where
  "single_spaced [] = True"
| "single_spaced [c] = (if is_space c then c = 32 else True)"
| "single_spaced (c # d # ds) =
     ((if is_space c then c = 32 \<and> \<not> is_space d else True) \<and> single_spaced (d # ds))"

text \<open>A word as \<open>split\<close> returns it: not empty, no whitespace in it.\<close>

definition wordlike :: "ustring \<Rightarrow> bool" where
  "wordlike w = (w \<noteq> [] \<and> list_all not_space w)"

section \<open>The list generator\<close>

text \<open>\<open>s.split("\n")\<close>, for a separator of one character: the empty string gives one empty piece.\<close>

fun py_split_on :: "'a \<Rightarrow> 'a list \<Rightarrow> 'a list list" where
  "py_split_on sep [] = [[]]"
| "py_split_on sep (c # cs) =
     (if c = sep then [] # py_split_on sep cs
      else (case py_split_on sep cs of [] \<Rightarrow> [[c]] | w # ws \<Rightarrow> (c # w) # ws))"

text \<open>\<open>s.strip()\<close>: whitespace removed at both ends.\<close>

definition py_strip :: "ustring \<Rightarrow> ustring" where
  "py_strip s = rev (dropWhile is_space (rev (dropWhile is_space s)))"

text \<open>
  The character class \<open>[0-9\.\-\*\<bullet>\s]\<close> (the bullet is U+2022, code point 8226), and
  \<open>re.sub(r"^[...]+", "", l)\<close>: the pattern is anchored at the start of the string, so the
  one possible match is the longest prefix of class characters.
\<close>

definition lead_char :: "uchar \<Rightarrow> bool" where
  "lead_char c =
     ((48 \<le> c \<and> c \<le> 57) \<or> c = 46 \<or> c = 45 \<or> c = 42 \<or> c = 8226 \<or> is_space c)"

definition re_sub_lead :: "ustring \<Rightarrow> ustring" where
  "re_sub_lead l = dropWhile lead_char l"

text \<open>\<open>str(i)\<close> for an integer, as the f-strings format it.\<close>

function str_nat :: "nat \<Rightarrow> ustring" where
  "str_nat n = (if n < 10 then [48 + n] else str_nat (n div 10) @ [48 + n mod 10])"
  by pat_completeness auto
termination
  by (relation "measure id") auto

declare str_nat.simps [simp del]

definition str_int :: "int \<Rightarrow> ustring" where
  "str_int i = (if i < 0 then 45 # str_nat (nat (- i)) else str_nat (nat i))"

text \<open>
  \<^verbatim>\<open>
  lines = [re.sub(r"^[0-9\.\-\*\<bullet>\s]+", "", l).strip() for l in raw.split("\n") if l.strip()]
  \<close>
\<close>

definition usable_lines :: "ustring \<Rightarrow> ustring list" where
  "usable_lines raw =
     map (\<lambda>l. py_strip (re_sub_lead l)) (filter (\<lambda>l. py_strip l \<noteq> []) (py_split_on 10 raw))"

definition filler :: "ustring \<Rightarrow> ustring" where
  "filler topic = ustr ''A simple example of '' @ topic @ ustr ''.''"

text \<open>
  \<^verbatim>\<open>
  while len(lines) < n:
      lines.append(f"A simple example of {topic}.")
  \<close>
\<close>

function pad_lines :: "int \<Rightarrow> ustring \<Rightarrow> ustring list \<Rightarrow> ustring list" where
  "pad_lines n fill lines =
     (if int (length lines) < n then pad_lines n fill (lines @ [fill]) else lines)"
  by pat_completeness auto
termination
  by (relation "measure (\<lambda>(n, fill, lines). nat (n - int (length lines)))") auto

declare pad_lines.simps [simp del]

text \<open>
  \<^verbatim>\<open>
  for i, line in enumerate(clean_lines, start=1):
      numbered.append(f"{i}. {line}")
  \<close>
\<close>

fun number_lines :: "nat \<Rightarrow> ustring list \<Rightarrow> ustring list" where
  "number_lines i [] = []"
| "number_lines i (line # rest) = (str_nat i @ ustr ''. '' @ line) # number_lines (Suc i) rest"

text \<open>Lines 108 to 119 of \<open>generate_apps\<close>: from the model's reply to the numbered list.\<close>

definition apps_of_reply :: "ustring \<Rightarrow> int \<Rightarrow> ustring \<Rightarrow> ustring" where
  "apps_of_reply topic n raw =
     (let lines = pad_lines n (filler topic) (usable_lines raw);
          clean_lines = py_slice_to n lines
      in py_join [10] (number_lines 1 clean_lines))"

section \<open>The outside world and the run\<close>

text \<open>
  What the program reads and calls but does not compute is a parameter of the model: the
  environment variable, the template file, the model service and the document converter.
  A request to the service is answered by the service; the answer may depend on how many
  requests came before it.
\<close>

record request =
  model_name :: ustring
  prompt :: ustring
  max_output_tokens :: "int option"

datatype api_reply =
    ApiError    \<comment> \<open>constructing the model or \<open>generate_content\<close> raises\<close>
  | NoText      \<comment> \<open>a response is returned; reading \<open>res.text\<close> raises\<close>
  | Text ustring

text \<open>
  A document as far as its text goes: the body paragraphs, and for each table its rows of
  cell texts, every cell taken as a cell of its own. Fonts, sizes, alignment and spacing
  (\<open>apply_font_styles\<close>) are not part of the model, and the bytes of the saved file are
  those that \<open>docx_save\<close> of the world gives.
\<close>

record docx =
  paragraphs :: "ustring list"
  tables :: "ustring list list list"

datatype template_file = Missing | Unreadable | Template docx

type_synonym bytes = "nat list"
type_synonym path = "ustring list"

record filesystem =
  is_dir :: "path \<Rightarrow> bool"
  contents :: "path \<Rightarrow> bytes option"

record world =
  GOOGLE_API_KEY :: "ustring option"
  gemini :: "nat \<Rightarrow> request \<Rightarrow> api_reply"
  template :: template_file
  docx_save :: "docx \<Rightarrow> bytes"
  mkdtemp :: "filesystem \<Rightarrow> path option"
  write_ok :: "path \<Rightarrow> filesystem \<Rightarrow> bool"
  docx2pdf :: "path \<Rightarrow> path \<Rightarrow> filesystem \<Rightarrow> bool \<times> filesystem"

text \<open>What a run has done so far: the requests sent, what the page shows, the disk.\<close>

datatype event =
    StError ustring
  | StSuccess ustring
  | DownloadButton ustring bytes ustring

record run =
  sent :: "request list"
  screen :: "event list"
  disk :: filesystem

text \<open>
  A run ends early when \<open>st.stop()\<close> is called or when an exception is not caught.
\<close>

datatype abort = Stopped | Raised ustring

type_synonym 'a io = "run \<Rightarrow> (abort + 'a) \<times> run"

definition bind_io :: "'a io \<Rightarrow> ('a \<Rightarrow> 'b io) \<Rightarrow> 'b io" where
  "bind_io m f r = (case m r of (Inl e, r') \<Rightarrow> (Inl e, r') | (Inr x, r') \<Rightarrow> f x r')"

definition st_error :: "ustring \<Rightarrow> run \<Rightarrow> run" where
  "st_error msg r = r\<lparr>screen := screen r @ [StError msg]\<rparr>"

definition st_success :: "ustring \<Rightarrow> run \<Rightarrow> run" where
  "st_success msg r = r\<lparr>screen := screen r @ [StSuccess msg]\<rparr>"

definition st_download_button :: "ustring \<Rightarrow> bytes \<Rightarrow> ustring \<Rightarrow> run \<Rightarrow> run" where
  "st_download_button label data file_name r =
     r\<lparr>screen := screen r @ [DownloadButton label data file_name]\<rparr>"

text \<open>Sending a request: it is recorded, and the service answers it.\<close>

definition send :: "world \<Rightarrow> request \<Rightarrow> run \<Rightarrow> api_reply \<times> run" where
  "send w q r = (gemini w (length (sent r)) q, r\<lparr>sent := sent r @ [q]\<rparr>)"

section \<open>The model selector\<close>

definition TEMPLATE_PATH :: ustring where
  "TEMPLATE_PATH = ustr ''vam.docx''"

definition PREFERRED_MODELS :: "ustring list" where
  "PREFERRED_MODELS =
     [ustr ''gemini-2.0-flash'', ustr ''gemini-2.0-pro'',
      ustr ''gemini-1.5-flash'', ustr ''gemini-1.5-pro'']"

definition ping :: "ustring \<Rightarrow> request" where
  "ping m = \<lparr>model_name = m, prompt = ustr ''ping'', max_output_tokens = None\<rparr>"

text \<open>
  \<^verbatim>\<open>
  for m in PREFERRED_MODELS:
      try:
          model = genai.GenerativeModel(m)
          model.generate_content("ping")
          return m
      except:
          continue
  st.error("No working Gemini model available.")
  st.stop()
  \<close>
\<close>

fun try_models :: "world \<Rightarrow> ustring list \<Rightarrow> ustring io" where
  "try_models w [] r = (Inl Stopped, st_error (ustr ''No working Gemini model available.'') r)"
| "try_models w (m # ms) r =
     (case send w (ping m) r of
        (ApiError, r') \<Rightarrow> try_models w ms r'
      | (_, r') \<Rightarrow> (Inr m, r'))"

text \<open>\<open>not key\<close>: the variable is not set, or it is set to the empty string.\<close>

definition no_key :: "ustring option \<Rightarrow> bool" where
  "no_key key = (case key of None \<Rightarrow> True | Some k \<Rightarrow> k = [])"

definition init_genai :: "world \<Rightarrow> ustring io" where
  "init_genai w r =
     (if no_key (GOOGLE_API_KEY w)
      then (Inl Stopped, st_error (ustr ''GOOGLE_API_KEY not found'') r)
      else try_models w PREFERRED_MODELS r)"

section \<open>The content generator\<close>

text \<open>
  \<^verbatim>\<open>
  def call_gemini(prompt, model, max_tokens=900):
      obj = genai.GenerativeModel(model)
      res = obj.generate_content(prompt, generation_config={"max_output_tokens": max_tokens})
      return res.text.strip()
  \<close>
\<close>

definition call_gemini :: "world \<Rightarrow> ustring \<Rightarrow> ustring \<Rightarrow> ustring io" where
  "call_gemini w p m r =
     (case send w \<lparr>model_name = m, prompt = p, max_output_tokens = Some 900\<rparr> r of
        (ApiError, r') \<Rightarrow> (Inl (Raised (ustr ''Exception'')), r')
      | (NoText, r') \<Rightarrow> (Inl (Raised (ustr ''ValueError'')), r')
      | (Text t, r') \<Rightarrow> (Inr (py_strip t), r'))"

definition rule_line :: "string \<Rightarrow> ustring" where
  "rule_line s = [8226, 32] @ ustr s @ [10]"

definition section_prompt :: "ustring \<Rightarrow> int \<Rightarrow> ustring" where
  "section_prompt topic nwords =
     [10] @ ustr ''Write a simple and easy-to-understand reflective paragraph of about ''
       @ str_int nwords @ ustr '' words.'' @ [10, 10]
     @ ustr ''The paragraph MUST start exactly like this:'' @ [10]
     @ [34] @ ustr ''In this module, I have learned that '' @ topic @ ustr ''...'' @ [34, 10, 10]
     @ ustr ''Writing rules:'' @ [10]
     @ rule_line ''Use simple English only.''
     @ rule_line ''No complex or academic words.''
     @ rule_line ''A single clear paragraph.''
     @ rule_line ''Make it personal and human-like.''
     @ rule_line ''Describe real feelings about what was learned.''
     @ rule_line ''No bullet points.''"

definition generate_section :: "world \<Rightarrow> ustring \<Rightarrow> ustring \<Rightarrow> ustring \<Rightarrow> int \<Rightarrow> ustring io" where
  "generate_section w model title topic nwords =
     bind_io (call_gemini w (section_prompt topic nwords) model)
       (\<lambda>raw r. (Inr (enforce_count raw nwords), r))"

definition apps_prompt :: "ustring \<Rightarrow> int \<Rightarrow> ustring" where
  "apps_prompt topic n =
     [10] @ ustr ''Give '' @ str_int n @ ustr '' simple real-life applications of '' @ topic
       @ ustr ''.'' @ [10]
     @ ustr ''Rules:'' @ [10]
     @ rule_line ''One short sentence each.''
     @ rule_line ''Use simple English.''
     @ rule_line ''No bullets, no symbols.''
     @ rule_line ''No asterisks (*).''
     @ rule_line ''Output as plain lines separated by newlines.''"

definition generate_apps :: "world \<Rightarrow> ustring \<Rightarrow> ustring \<Rightarrow> int \<Rightarrow> ustring io" where
  "generate_apps w model topic n =
     bind_io (call_gemini w (apps_prompt topic n) model)
       (\<lambda>raw r. (Inr (apps_of_reply topic n raw), r))"

section \<open>The template filler\<close>

text \<open>\<open>key in text\<close>\<close>

fun py_contains :: "'a list \<Rightarrow> 'a list \<Rightarrow> bool" where
  "py_contains key [] = (key = [])"
| "py_contains key (c # cs) = (if prefix key (c # cs) then True else py_contains key cs)"

text \<open>
  \<open>text.replace(old, new)\<close>: the occurrences of \<open>old\<close> are replaced from the left, without
  overlap; an empty \<open>old\<close> matches before every character and at the end.
\<close>

function py_replace :: "'a list \<Rightarrow> 'a list \<Rightarrow> 'a list \<Rightarrow> 'a list" where
  "py_replace old new [] = (if old = [] then new else [])"
| "py_replace old new (c # cs) =
     (if old = [] then new @ c # py_replace old new cs
      else if prefix old (c # cs) then new @ py_replace old new (drop (length old) (c # cs))
      else c # py_replace old new cs)"
  by pat_completeness auto
termination
  by (relation "measure (\<lambda>(old, new, s). length s)") auto

text \<open>
  \<^verbatim>\<open>
  for key, value in data.items():
      if key in p.text:
          p.text = p.text.replace(key, value)
  \<close>
  A dictionary is iterated in the order of insertion: the placeholder map is a list of
  pairs.
\<close>

fun replace_placeholders :: "(ustring \<times> ustring) list \<Rightarrow> ustring \<Rightarrow> ustring" where
  "replace_placeholders [] text = text"
| "replace_placeholders ((key, val) # rest) text =
     replace_placeholders rest (if py_contains key text then py_replace key val text else text)"

definition fill_document :: "(ustring \<times> ustring) list \<Rightarrow> docx \<Rightarrow> docx" where
  "fill_document data doc =
     \<lparr>paragraphs = map (replace_placeholders data) (paragraphs doc),
      tables = map (map (map (replace_placeholders data))) (tables doc)\<rparr>"

definition fill_template :: "world \<Rightarrow> (ustring \<times> ustring) list \<Rightarrow> bytes io" where
  "fill_template w data r =
     (case template w of
        Missing \<Rightarrow> (Inl Stopped, st_error (ustr ''Template not found: '' @ TEMPLATE_PATH) r)
      | Unreadable \<Rightarrow> (Inl (Raised (ustr ''PackageNotFoundError'')), r)
      | Template doc \<Rightarrow> (Inr (docx_save w (fill_document data doc)), r))"

section \<open>The format converter\<close>

text \<open>
  Leaving the block of \<open>with tempfile.TemporaryDirectory() as tmpdir\<close>, by return or by
  exception, removes the directory and everything below it.
\<close>

definition rmtree :: "path \<Rightarrow> filesystem \<Rightarrow> filesystem" where
  "rmtree d fs =
     \<lparr>is_dir = (\<lambda>p. if prefix d p then False else is_dir fs p),
      contents = (\<lambda>p. if prefix d p then None else contents fs p)\<rparr>"

definition write_file :: "path \<Rightarrow> bytes \<Rightarrow> filesystem \<Rightarrow> filesystem" where
  "write_file p b fs = fs\<lparr>contents := (contents fs)(p \<mapsto> b)\<rparr>"

text \<open>
  The block itself. Opening the file for writing creates it; the write may fail. The
  converter is an external program: it may raise, and it leaves the disk as it likes.
\<close>

definition convert_in :: "world \<Rightarrow> path \<Rightarrow> bytes \<Rightarrow> bytes io" where
  "convert_in w tmpdir docx_bytes r =
     (let docx_path = tmpdir @ [ustr ''temp.docx''];
          pdf_path = tmpdir @ [ustr ''temp.pdf'']
      in if \<not> write_ok w docx_path (disk r)
         then (Inl (Raised (ustr ''OSError'')), r\<lparr>disk := write_file docx_path [] (disk r)\<rparr>)
         else
           (case docx2pdf w docx_path pdf_path (write_file docx_path docx_bytes (disk r)) of
              (False, fs) \<Rightarrow> (Inl (Raised (ustr ''Exception'')), r\<lparr>disk := fs\<rparr>)
            | (True, fs) \<Rightarrow>
                (case contents fs pdf_path of
                   None \<Rightarrow> (Inl (Raised (ustr ''FileNotFoundError'')), r\<lparr>disk := fs\<rparr>)
                 | Some pdf \<Rightarrow> (Inr pdf, r\<lparr>disk := fs\<rparr>))))"

definition convert_to_pdf :: "world \<Rightarrow> bytes \<Rightarrow> bytes io" where
  "convert_to_pdf w docx_bytes r =
     (case mkdtemp w (disk r) of
        None \<Rightarrow> (Inl (Raised (ustr ''OSError'')), r)
      | Some tmpdir \<Rightarrow>
          (case convert_in w tmpdir docx_bytes
                  (r\<lparr>disk := (disk r)\<lparr>is_dir := (is_dir (disk r))(tmpdir := True)\<rparr>\<rparr>) of
             (res, r') \<Rightarrow> (res, r'\<lparr>disk := rmtree tmpdir (disk r')\<rparr>)))"

section \<open>The Generate action\<close>

record form =
  assignment_name :: ustring
  student_name :: ustring
  rollno :: ustring
  class_section :: ustring
  level :: ustring
  year_term :: ustring
  journal_title :: ustring
  topic :: ustring
  subject_name :: ustring

definition placeholder_map ::
  "form \<Rightarrow> ustring \<Rightarrow> ustring \<Rightarrow> ustring \<Rightarrow> ustring \<Rightarrow> ustring \<Rightarrow> (ustring \<times> ustring) list" where
  "placeholder_map f exp feel ins apps conc =
     [(ustr ''{{assignment_name}}'', assignment_name f),
      (ustr ''{{student_name}}'', student_name f),
      (ustr ''{{rollno}}'', rollno f),
      (ustr ''{{class_section}}'', class_section f),
      (ustr ''{{level}}'', level f),
      (ustr ''{{year_term}}'', year_term f),
      (ustr ''{{subject_name}}'', subject_name f),
      (ustr ''{{title}}'', journal_title f),
      (ustr ''{{experiences}}'', exp),
      (ustr ''{{feelings}}'', feel),
      (ustr ''{{insights}}'', ins),
      (ustr ''{{applications}}'', apps),
      (ustr ''{{conclusion}}'', conc)]"

text \<open>The body of \<open>if st.button("Generate RJ")\<close>, lines 221 to 256.\<close>

definition generate_rj :: "world \<Rightarrow> form \<Rightarrow> unit io" where
  "generate_rj w f r =
     (if topic f = [] then (Inl Stopped, st_error (ustr ''Please enter a topic.'') r)
      else
        bind_io (init_genai w) (\<lambda>model.
        bind_io (\<lambda>r. (Inr (), st_success (ustr ''Using model: '' @ model) r)) (\<lambda>_.
        bind_io (generate_section w model (ustr ''Experiences'') (topic f) 150) (\<lambda>exp.
        bind_io (generate_section w model (ustr ''Feelings'') (topic f) 150) (\<lambda>feel.
        bind_io (generate_section w model (ustr ''Insights'') (topic f) 300) (\<lambda>ins.
        bind_io (generate_section w model (ustr ''Conclusion'') (topic f) 100) (\<lambda>conc.
        bind_io (generate_apps w model (topic f) 5) (\<lambda>apps.
        bind_io (fill_template w (placeholder_map f exp feel ins apps conc)) (\<lambda>docx_output.
        bind_io (\<lambda>r. (Inr (), st_download_button (ustr ''Download DOCX'') docx_output
                                 (ustr ''Journal_Output.docx'') r)) (\<lambda>_.
        bind_io (convert_to_pdf w docx_output) (\<lambda>pdf_bytes r.
          (Inr (), st_download_button (ustr ''Download PDF'') pdf_bytes
                      (ustr ''Journal_Output.pdf'') r))))))))))) r)"

text \<open>The download buttons among the events of a page.\<close>

fun is_download :: "event \<Rightarrow> bool" where
  "is_download (DownloadButton _ _ _) = True"
| "is_download _ = False"

section \<open>Example runs\<close>

text \<open>
  A world in which the first request fails and every later one is answered, the template is
  missing and the converter raises; and one in which the template is there and the
  converter works.
\<close>

definition example_world :: world where
  "example_world =
     \<lparr>GOOGLE_API_KEY = Some (ustr ''key''),
      gemini = (\<lambda>k q. if k = 0 then ApiError else Text (ustr ''ok'')),
      template = Missing,
      docx_save = (\<lambda>d. concat (paragraphs d)),
      mkdtemp = (\<lambda>fs. Some [ustr ''tmp'', ustr ''rj'']),
      write_ok = (\<lambda>p fs. True),
      docx2pdf = (\<lambda>src dst fs. (False, write_file dst [] fs))\<rparr>"

definition working_world :: world where
  "working_world =
     example_world
       \<lparr>template := Template \<lparr>paragraphs = [ustr ''{{title}}''], tables = []\<rparr>,
        docx2pdf := (\<lambda>src dst fs. (True, write_file dst (ustr ''%PDF'') fs))\<rparr>"

definition example_form :: form where
  "example_form =
     \<lparr>assignment_name = [], student_name = [], rollno = [], class_section = [], level = [],
      year_term = [], journal_title = [], topic = ustr ''recursion'', subject_name = []\<rparr>"

definition empty_disk :: filesystem where
  "empty_disk = \<lparr>is_dir = (\<lambda>p. False), contents = (\<lambda>p. None)\<rparr>"

definition fresh_run :: run where
  "fresh_run = \<lparr>sent = [], screen = [], disk = empty_disk\<rparr>"

section \<open>Notions used in the statements\<close>

text \<open>The test request to the \<open>i\<close>-th candidate, sent as the \<open>i\<close>-th request of the selector, fails.\<close>

definition probe_fails :: "world \<Rightarrow> run \<Rightarrow> nat \<Rightarrow> bool" where
  "probe_fails w r i =
     (gemini w (length (sent r) + i) (ping (PREFERRED_MODELS ! i)) = ApiError)"

text \<open>The message of \<open>fill_template\<close> for a missing template.\<close>

definition template_msg :: ustring where
  "template_msg = ustr ''Template not found: '' @ TEMPLATE_PATH"

text \<open>No download was offered and the disk was not touched between two states of a run.\<close>

definition no_output_since :: "run \<Rightarrow> run \<Rightarrow> bool" where
  "no_output_since r0 r' =
     (filter is_download (screen r') = filter is_download (screen r0) \<and> disk r' = disk r0)"

text \<open>
  A run ends aborted, without output; and if it was stopped with the message of the missing
  template, at least \<open>k\<close> requests had been sent to the model.
\<close>

definition aborts_after :: "nat \<Rightarrow> run \<Rightarrow> (abort + unit) \<times> run \<Rightarrow> bool" where
  "aborts_after k r0 out =
     (case out of
        (Inr _, r') \<Rightarrow> False
      | (Inl e, r') \<Rightarrow>
          no_output_since r0 r' \<and>
          (if e = Stopped \<and> screen r' \<noteq> [] \<and> last (screen r') = StError template_msg
           then length (sent r0) + k \<le> length (sent r') else True))"

text \<open>At least \<open>k\<close> requests were sent, and nothing was output.\<close>

definition progress :: "nat \<Rightarrow> run \<Rightarrow> run \<Rightarrow> bool" where
  "progress k r0 r1 = (no_output_since r0 r1 \<and> length (sent r0) + k \<le> length (sent r1))"

section \<open>Facts about strings\<close>

lemma py_split_ws_Nil [simp]: "py_split_ws [] = []"
  by (simp add: py_split_ws.simps)

lemma py_split_ws_space [simp]: "is_space c \<Longrightarrow> py_split_ws (c # cs) = py_split_ws cs"
  by (subst py_split_ws.simps, subst (2) py_split_ws.simps) simp

lemma py_split_ws_word [simp]:
  "\<not> is_space c \<Longrightarrow>
     py_split_ws (c # cs) = (c # takeWhile not_space cs) # py_split_ws (dropWhile not_space cs)"
  by (subst py_split_ws.simps) simp

lemma is_space_32 [simp]: "is_space 32"
  by (simp add: is_space_def)

lemma ustr_space [simp]: "ustr '' '' = [32]"
  by (simp add: ustr_def)

lemma ustr_dots [simp]: "ustr ''...'' = [46, 46, 46]"
  by (simp add: ustr_def)

lemma not_space_46 [simp]: "\<not> is_space 46"
  by (simp add: is_space_def)

lemma runs_nonempty: "r \<in> set (runs P xs) \<Longrightarrow> r \<noteq> []"
  by (induction xs arbitrary: r) (auto split: list.splits if_splits)

lemma runs_Cons_hd: "\<exists>r rs. runs P (x # xs) = (x # r) # rs"
  by (auto split: list.splits)

lemma collapse_Nil [simp]: "collapse_whitespace_runs [] = []"
  by (simp add: collapse_whitespace_runs_def)

lemma collapse_Cons:
  "collapse_whitespace_runs (c # cs) =
     (if is_space c then
        (case cs of [] \<Rightarrow> [32]
         | d # ds \<Rightarrow> if is_space d then collapse_whitespace_runs cs
                    else 32 # collapse_whitespace_runs cs)
      else c # collapse_whitespace_runs cs)"
proof (cases cs)
  case Nil
  then show ?thesis by (simp add: collapse_whitespace_runs_def)
next
  case (Cons d ds)
  obtain r rs where R: "runs is_space (d # ds) = (d # r) # rs"
    using runs_Cons_hd [of is_space d ds] by blast
  show ?thesis
    unfolding Cons collapse_whitespace_runs_def runs.simps(2) [of is_space c "d # ds"] R
    by simp
qed

lemma re_sub_ws_Cons:
  "re_sub_ws (c # cs) =
     (if is_space c then
        (case cs of [] \<Rightarrow> [32]
         | d # ds \<Rightarrow> if is_space d then re_sub_ws cs else 32 # re_sub_ws cs)
      else c # re_sub_ws cs)"
  by (cases cs) simp_all

lemma re_sub_ws_collapse: "re_sub_ws t = collapse_whitespace_runs t"
proof (induction t)
  case Nil
  show ?case by simp
next
  case (Cons c cs)
  show ?case
    by (simp only: re_sub_ws_Cons [of c cs] collapse_Cons [of c cs] Cons.IH)
qed

lemma split_dropWhile_space: "py_split_ws (dropWhile is_space s) = py_split_ws s"
  by (induction s) simp_all

lemma takeWhile_re_sub_ws: "takeWhile not_space (re_sub_ws xs) = takeWhile not_space xs"
  by (induction xs rule: re_sub_ws.induct) simp_all

lemma dropWhile_re_sub_ws: "dropWhile not_space (re_sub_ws xs) = re_sub_ws (dropWhile not_space xs)"
  by (induction xs rule: re_sub_ws.induct) simp_all

lemma split_re_sub_ws: "py_split_ws (re_sub_ws t) = py_split_ws t"
proof (induction t rule: length_induct)
  case (1 t)
  show ?case
  proof (cases t)
    case Nil
    then show ?thesis by simp
  next
    case (Cons c cs)
    show ?thesis
    proof (cases "is_space c")
      case True
      have "length (dropWhile is_space cs) < length t"
        using Cons length_dropWhile_le [of is_space cs] by simp
      then have "py_split_ws (re_sub_ws (dropWhile is_space cs)) = py_split_ws (dropWhile is_space cs)"
        using 1 by blast
      then show ?thesis
        using True Cons by (simp add: split_dropWhile_space)
    next
      case False
      have "length (dropWhile not_space cs) < length t"
        using Cons length_dropWhile_le [of not_space cs] by simp
      then have "py_split_ws (re_sub_ws (dropWhile not_space cs)) = py_split_ws (dropWhile not_space cs)"
        using 1 by blast
      then show ?thesis
        using False Cons by (simp add: takeWhile_re_sub_ws dropWhile_re_sub_ws)
    qed
  qed
qed

lemma split_words_wordlike: "list_all wordlike (py_split_ws t)"
proof (induction t rule: length_induct)
  case (1 t)
  show ?case
  proof (cases t)
    case Nil
    then show ?thesis by simp
  next
    case (Cons c cs)
    show ?thesis
    proof (cases "is_space c")
      case True
      have "list_all wordlike (py_split_ws cs)"
        using 1 Cons by simp
      then show ?thesis
        unfolding Cons using True by simp
    next
      case False
      have "length (dropWhile not_space cs) < length t"
        using Cons length_dropWhile_le [of not_space cs] by simp
      then have rest: "list_all wordlike (py_split_ws (dropWhile not_space cs))"
        using 1 by blast
      have "list_all not_space (takeWhile not_space cs)"
        by (auto simp: list_all_iff dest: set_takeWhileD)
      then have first: "wordlike (c # takeWhile not_space cs)"
        using False by (simp add: wordlike_def)
      show ?thesis
        unfolding Cons py_split_ws_word [OF False] using first rest by simp
    qed
  qed
qed

lemma split_word_then:
  "list_all not_space w \<Longrightarrow> w \<noteq> [] \<Longrightarrow> is_space d \<Longrightarrow>
     py_split_ws (w @ d # rest) = w # py_split_ws rest"
proof -
  assume a: "list_all not_space w" "w \<noteq> []" "is_space d"
  obtain c cs where w: "w = c # cs" using a(2) by (cases w) auto
  have ns: "\<forall>x\<in>set cs. \<not> is_space x" "\<not> is_space c"
    using a(1) w by (simp_all add: list_all_iff)
  have "takeWhile not_space (cs @ d # rest) = cs"
    using ns a(3) by (simp add: takeWhile_append2)
  moreover have "dropWhile not_space (cs @ d # rest) = d # rest"
    using ns a(3) by (simp add: dropWhile_append2)
  ultimately show ?thesis
    using ns a(3) w by simp
qed

lemma split_word_only:
  "list_all not_space w \<Longrightarrow> w \<noteq> [] \<Longrightarrow> py_split_ws w = [w]"
proof -
  assume a: "list_all not_space w" "w \<noteq> []"
  obtain c cs where w: "w = c # cs" using a(2) by (cases w) auto
  have ns: "\<forall>x\<in>set cs. \<not> is_space x" "\<not> is_space c"
    using a(1) w by (simp_all add: list_all_iff)
  have td: "takeWhile not_space cs = cs" "dropWhile not_space cs = []"
    using ns by simp_all
  show ?thesis
    unfolding w using ns(2) by (simp add: td)
qed

lemma wordlikeD: "wordlike w \<Longrightarrow> list_all not_space w \<and> w \<noteq> []"
  by (simp add: wordlike_def)


lemma split_join_words_tail:
  "list_all wordlike ws \<Longrightarrow> wordlike x \<Longrightarrow>
     length (py_split_ws (py_join [32] ws @ x)) = max 1 (length ws)"
proof (induction ws rule: induct_list012)
  case 1
  then have "list_all not_space x \<and> x \<noteq> []" by (simp add: wordlikeD)
  then show ?case by (simp add: split_word_only)
next
  case (2 w)
  then have "list_all not_space (w @ x)" "w @ x \<noteq> []"
    by (simp_all add: wordlike_def)
  then show ?case using split_word_only [of "w @ x"] by simp
next
  case (3 w y ys)
  have w: "list_all not_space w" "w \<noteq> []"
    using 3(3) by (simp_all add: wordlikeD)
  have rest: "length (py_split_ws (py_join [32] (y # ys) @ x)) = max 1 (length (y # ys))"
    using 3 by simp
  have "py_split_ws (w @ 32 # (py_join [32] (y # ys) @ x))
          = w # py_split_ws (py_join [32] (y # ys) @ x)"
    by (rule split_word_then [OF w is_space_32])
  then have "length (py_split_ws (py_join [32] (w # y # ys) @ x)) =
               Suc (length (py_split_ws (py_join [32] (y # ys) @ x)))"
    by (simp only: py_join.simps append_Cons append_Nil append_assoc length_Cons)
  then show ?case using rest by simp
qed


lemma single_spaced_re_sub_ws: "single_spaced (re_sub_ws t)"
proof (induction t rule: length_induct)
  case (1 t)
  show ?case
  proof (cases t)
    case Nil
    then show ?thesis by simp
  next
    case (Cons c cs)
    show ?thesis
    proof (cases "is_space c")
      case True
      let ?r = "dropWhile is_space cs"
      have "length ?r < length t"
        using Cons length_dropWhile_le [of is_space cs] by simp
      then have ih: "single_spaced (re_sub_ws ?r)" using 1 by blast
      have "single_spaced (32 # re_sub_ws ?r)"
      proof (cases ?r)
        case Nil
        show ?thesis unfolding Nil by simp
      next
        case inner: (Cons d ds)
        have "\<not> is_space (hd ?r)"
          by (rule hd_dropWhile) (simp add: inner)
        then have d: "\<not> is_space d" unfolding inner by simp
        show ?thesis
        proof (cases "re_sub_ws ?r")
          case Nil
          show ?thesis unfolding Nil by simp
        next
          case (Cons e es)
          have "e = d" using Cons d unfolding inner by simp
          then show ?thesis using ih d unfolding Cons by simp
        qed
      qed
      then show ?thesis unfolding Cons using True by simp
    next
      case False
      have ih: "single_spaced (re_sub_ws cs)" using 1 Cons by simp
      show ?thesis
        unfolding Cons using False ih by (cases "re_sub_ws cs") simp_all
    qed
  qed
qed

lemma re_sub_ws_single_spaced: "single_spaced s \<Longrightarrow> re_sub_ws s = s"
  by (induction s rule: single_spaced.induct) (auto split: if_splits)

lemma single_spaced_word_append:
  "list_all not_space w \<Longrightarrow> single_spaced r \<Longrightarrow> single_spaced (w @ r)"
proof (induction w)
  case Nil
  then show ?case by simp
next
  case (Cons c w)
  then have "single_spaced (w @ r)" "\<not> is_space c" by simp_all
  then show ?case by (cases "w @ r") simp_all
qed

lemma single_spaced_join_tail:
  "list_all wordlike ws \<Longrightarrow> list_all not_space x \<Longrightarrow> single_spaced (py_join [32] ws @ x)"
proof (induction ws rule: induct_list012)
  case 1
  then show ?case using single_spaced_word_append [of x "[]"] by simp
next
  case (2 w)
  then have "list_all not_space (w @ x)" by (simp add: wordlike_def)
  then show ?case using single_spaced_word_append [of "w @ x" "[]"] by simp
next
  case (3 w y ys)
  have w: "list_all not_space w" using 3(3) by (simp add: wordlikeD)
  obtain d ds where y: "y = d # ds" and d: "\<not> is_space d"
    using 3(3) by (cases y) (simp_all add: wordlike_def)
  have ih: "single_spaced (py_join [32] (y # ys) @ x)" using 3 by simp
  have "\<exists>r. py_join [32] (y # ys) @ x = d # r"
    unfolding y by (cases ys) simp_all
  then obtain r where r: "py_join [32] (y # ys) @ x = d # r" by blast
  have "single_spaced (32 # (py_join [32] (y # ys) @ x))"
    using ih d unfolding r by simp
  then have "single_spaced (w @ 32 # (py_join [32] (y # ys) @ x))"
    by (rule single_spaced_word_append [OF w])
  then show ?case by simp
qed

lemma py_slice_to_nonneg: "0 \<le> n \<Longrightarrow> py_slice_to n xs = take (nat n) xs"
  by (simp add: py_slice_to_def)

lemma list_all_take: "list_all P xs \<Longrightarrow> list_all P (take k xs)"
  by (auto simp: list_all_iff dest: in_set_takeD)

lemma wordlike_dots: "wordlike [46, 46, 46]"
  by (simp add: wordlike_def)


lemma enforce_count_small:
  "int (length (py_split_ws t)) \<le> n \<Longrightarrow> enforce_count t n = re_sub_ws t"
  by (simp add: enforce_count_def split_re_sub_ws)

lemma enforce_count_large:
  "0 \<le> n \<Longrightarrow> n < int (length (py_split_ws t)) \<Longrightarrow>
     enforce_count t n = py_join [32] (take (nat n) (py_split_ws t)) @ [46, 46, 46]"
  by (simp add: enforce_count_def split_re_sub_ws py_slice_to_nonneg)

lemma take_words_wordlike: "list_all wordlike (take k (py_split_ws t))"
  by (rule list_all_take [OF split_words_wordlike])

text \<open>
  Claim C2. For a target count \<open>n \<ge> 0\<close>, \<open>enforce_count\<close> replaces every run of
  whitespace of the text by one space; when the collapsed text has at most \<open>n\<close> words it
  is returned as it is, otherwise the result is the first \<open>n\<close> words joined by single
  spaces, followed by \<open>...\<close>. Collapsing does not change the words of the text.
\<close>

theorem enforce_count_contract:
  assumes "0 \<le> n"
  shows "enforce_count t n =
           (let c = collapse_whitespace_runs t; ws = py_split_ws c
            in if int (length ws) \<le> n then c
               else py_join (ustr '' '') (take (nat n) ws) @ ustr ''...'')
         \<and> py_split_ws (collapse_whitespace_runs t) = py_split_ws t"
  using assms
  by (simp add: enforce_count_def Let_def re_sub_ws_collapse [symmetric] split_re_sub_ws
        py_slice_to_nonneg)

theorem enforce_count_contract_witness:
  "(0::int) \<le> 2 \<and> enforce_count (ustr ''a  b c'') 2 = ustr ''a b...''
     \<and> collapse_whitespace_runs (ustr ''a  b c'') = ustr ''a b c''
     \<and> enforce_count (ustr ''a  b'') 2 = ustr ''a b''"
  using enforce_count_contract [of 2 "ustr ''a  b c''"] enforce_count_contract [of 2 "ustr ''a  b''"]
  by (simp add: Let_def ustr_def is_space_def collapse_whitespace_runs_def)




text \<open>
  Claim C8, amended. A text within the budget in which whitespace occurs only as single
  spaces is returned identical; and for every text and every \<open>n \<ge> 0\<close>, normalizing twice
  with the same target equals normalizing once.
\<close>

theorem enforce_count_idempotent:
  "(single_spaced t \<and> int (length (py_split_ws t)) \<le> n \<longrightarrow> enforce_count t n = t)
   \<and> (0 \<le> n \<longrightarrow> enforce_count (enforce_count t n) n = enforce_count t n)"
proof -
  have keep: "enforce_count s n = s"
    if "single_spaced s" "int (length (py_split_ws s)) \<le> n" for s
    using that by (simp add: enforce_count_small re_sub_ws_single_spaced)
  have idem: "enforce_count (enforce_count t n) n = enforce_count t n" if n: "0 \<le> n"
  proof (cases "n < int (length (py_split_ws t))")
    case False
    then have e: "enforce_count t n = re_sub_ws t"
      by (simp add: enforce_count_small)
    show ?thesis
      unfolding e using False
      by (intro keep single_spaced_re_sub_ws) (simp add: split_re_sub_ws)
  next
    case True
    let ?ws = "take (nat n) (py_split_ws t)"
    have e: "enforce_count t n = py_join [32] ?ws @ [46, 46, 46]"
      using n True by (rule enforce_count_large)
    have len: "length ?ws = nat n" using True n by simp
    show ?thesis
    proof (cases "n = 0")
      case True
      then have "enforce_count t n = [46, 46, 46]" using e by simp
      then show ?thesis
        using True by (simp add: enforce_count_def is_space_def py_slice_to_def)
    next
      case False
      have ss: "single_spaced (py_join [32] ?ws @ [46, 46, 46])"
        by (rule single_spaced_join_tail [OF take_words_wordlike]) simp
      have "length (py_split_ws (py_join [32] ?ws @ [46, 46, 46])) = max 1 (length ?ws)"
        by (rule split_join_words_tail [OF take_words_wordlike wordlike_dots])
      then have "int (length (py_split_ws (py_join [32] ?ws @ [46, 46, 46]))) \<le> n"
        unfolding len using False n by simp
      then show ?thesis unfolding e using ss by (intro keep)
    qed
  qed
  show ?thesis using keep idem by blast
qed

theorem enforce_count_idempotent_witness:
  "single_spaced (ustr ''a b'') \<and> int (length (py_split_ws (ustr ''a b''))) \<le> 5 \<and> (0::int) \<le> 5
     \<and> enforce_count (ustr ''a b'') 5 = ustr ''a b''
     \<and> enforce_count (enforce_count (ustr ''a b'') 5) 5 = enforce_count (ustr ''a b'') 5"
  using enforce_count_idempotent [of "ustr ''a b''" 5]
  by (simp add: ustr_def is_space_def)

text \<open>
  Claim C8 as stated fails: a text of two words separated by two spaces is within a budget
  of five words, and the result differs from the input.
\<close>

theorem enforce_count_identity_counterexample:
  "int (length (py_split_ws (ustr ''a  b''))) \<le> 5
     \<and> enforce_count (ustr ''a  b'') 5 \<noteq> ustr ''a  b''"
  by (simp add: enforce_count_def ustr_def is_space_def)

section \<open>Facts about the list generator\<close>

lemma pad_lines_eq:
  "pad_lines n fill lines = lines @ replicate (nat (n - int (length lines))) fill"
proof (induction n fill lines rule: pad_lines.induct)
  case (1 n fill lines)
  show ?case
  proof (cases "int (length lines) < n")
    case True
    then have "nat (n - int (length lines)) = Suc (nat (n - int (length (lines @ [fill]))))"
      by simp
    then show ?thesis
      using 1 True by (subst pad_lines.simps) (simp add: replicate_app_Cons_same)
  next
    case False
    then show ?thesis by (subst pad_lines.simps) simp
  qed
qed

lemma py_split_on_nonempty [simp]: "py_split_on sep s \<noteq> []"
  by (induction s) (auto split: list.splits)

lemma py_split_on_no_sep: "w \<in> set (py_split_on sep s) \<Longrightarrow> sep \<notin> set w"
  by (induction s arbitrary: w) (auto split: list.splits if_splits)

lemma py_split_on_single: "sep \<notin> set x \<Longrightarrow> py_split_on sep x = [x]"
  by (induction x) auto

lemma py_split_on_append:
  "sep \<notin> set x \<Longrightarrow> py_split_on sep (x @ sep # rest) = x # py_split_on sep rest"
  by (induction x) auto

lemma py_split_on_join:
  "xs \<noteq> [] \<Longrightarrow> \<forall>x\<in>set xs. sep \<notin> set x \<Longrightarrow> py_split_on sep (py_join [sep] xs) = xs"
proof (induction xs rule: induct_list012)
  case 1
  then show ?case by simp
next
  case (2 x)
  then show ?case by (simp add: py_split_on_single)
next
  case (3 x y ys)
  then have "py_split_on sep (py_join [sep] (y # ys)) = y # ys" by simp
  moreover have "sep \<notin> set x" using 3(4) by simp
  ultimately show ?case by (simp add: py_split_on_append)
qed

lemma str_nat_digits: "c \<in> set (str_nat n) \<Longrightarrow> 48 \<le> c \<and> c \<le> 57"
proof (induction n arbitrary: c rule: str_nat.induct)
  case (1 n)
  show ?case
  proof (cases "n < 10")
    case True
    then show ?thesis using 1(2) by (subst (asm) str_nat.simps) simp
  next
    case False
    have "c \<in> set (str_nat (n div 10)) \<or> c = 48 + n mod 10"
      using 1(2) False by (subst (asm) str_nat.simps) auto
    moreover have "n mod 10 < 10" by simp
    ultimately show ?thesis using 1(1) [OF False] by auto
  qed
qed

lemma length_number_lines [simp]: "length (number_lines i ls) = length ls"
  by (induction ls arbitrary: i) simp_all

lemma nth_number_lines:
  "k < length ls \<Longrightarrow> number_lines i ls ! k = str_nat (i + k) @ ustr ''. '' @ ls ! k"
proof (induction ls arbitrary: i k)
  case Nil
  then show ?case by simp
next
  case (Cons l ls)
  then show ?case by (cases k) simp_all
qed

lemma set_py_strip: "set (py_strip s) \<subseteq> set s"
proof -
  have "set (py_strip s) \<subseteq> set (dropWhile is_space s)"
    unfolding py_strip_def using set_dropWhileD [of _ is_space "rev (dropWhile is_space s)"]
    by auto
  then show ?thesis using set_dropWhileD [of _ is_space s] by blast
qed

lemma usable_lines_no_newline: "l \<in> set (usable_lines raw) \<Longrightarrow> 10 \<notin> set l"
proof -
  assume "l \<in> set (usable_lines raw)"
  then obtain l0 where l0: "l0 \<in> set (py_split_on 10 raw)" and l: "l = py_strip (re_sub_lead l0)"
    by (auto simp: usable_lines_def)
  have "set l \<subseteq> set l0"
    unfolding l re_sub_lead_def
    using set_py_strip [of "dropWhile lead_char l0"] set_dropWhileD [of _ lead_char l0] by blast
  then show ?thesis using py_split_on_no_sep [OF l0] by blast
qed

lemma filler_no_newline: "10 \<notin> set tp \<Longrightarrow> 10 \<notin> set (filler tp)"
  by (auto simp: filler_def ustr_def)


lemma clean_lines_eq:
  "0 \<le> n \<Longrightarrow>
     py_slice_to n (pad_lines n fill ls) =
       take (nat n) (ls @ replicate (nat n - length ls) fill)"
  by (simp add: py_slice_to_def pad_lines_eq nat_diff_distrib')

lemma length_clean_lines:
  "0 \<le> n \<Longrightarrow> length (py_slice_to n (pad_lines n fill ls)) = nat n"
  by (simp add: clean_lines_eq)

lemma number_lines_no_newline:
  "\<forall>l\<in>set ls. 10 \<notin> set l \<Longrightarrow> \<forall>l\<in>set (number_lines i ls). 10 \<notin> set l"
proof (induction ls arbitrary: i)
  case Nil
  then show ?case by simp
next
  case (Cons l ls)
  have "10 \<notin> set (str_nat i)" using str_nat_digits [of 10 i] by auto
  then show ?case using Cons by (auto simp: ustr_def)
qed

lemma number_lines_Nil_iff [simp]: "number_lines i ls = [] \<longleftrightarrow> ls = []"
  by (cases ls) simp_all

text \<open>
  Claim C1, amended. For every count \<open>n \<ge> 1\<close>, every reply of the model and every topic
  that contains no newline, the output of the list generator splits at newlines into
  exactly \<open>n\<close> lines, the \<open>i\<close>-th of which begins with \<open>i\<close>, a dot and a space: they
  are the usable lines of the reply, padded with the filler sentence and cut to \<open>n\<close>, each
  behind its number.
\<close>

theorem apps_of_reply_lines:
  assumes "1 \<le> n" and "10 \<notin> set tp"
  shows "length (py_split_on 10 (apps_of_reply tp n raw)) = nat n
       \<and> (\<forall>i < nat n. prefix (str_nat (Suc i) @ ustr ''. '')
                               (py_split_on 10 (apps_of_reply tp n raw) ! i))
       \<and> py_split_on 10 (apps_of_reply tp n raw) =
           number_lines 1 (take (nat n)
             (usable_lines raw @ replicate (nat n - length (usable_lines raw)) (filler tp)))"
proof -
  let ?clean = "take (nat n)
             (usable_lines raw @ replicate (nat n - length (usable_lines raw)) (filler tp))"
  have n0: "0 \<le> n" using assms(1) by simp
  have out: "apps_of_reply tp n raw = py_join [10] (number_lines 1 ?clean)"
    by (simp add: apps_of_reply_def Let_def clean_lines_eq [OF n0])
  have len: "length ?clean = nat n" by simp
  have "\<forall>l\<in>set (usable_lines raw @ replicate (nat n - length (usable_lines raw)) (filler tp)).
          10 \<notin> set l"
    using usable_lines_no_newline filler_no_newline [OF assms(2)] by auto
  then have "\<forall>l\<in>set ?clean. 10 \<notin> set l"
    by (meson in_set_takeD)
  then have nl: "\<forall>l\<in>set (number_lines 1 ?clean). 10 \<notin> set l"
    by (rule number_lines_no_newline)
  have ne: "number_lines 1 ?clean \<noteq> []"
    using len assms(1) by (cases ?clean) auto
  have split: "py_split_on 10 (apps_of_reply tp n raw) = number_lines 1 ?clean"
    unfolding out by (rule py_split_on_join [OF ne nl])
  have pre: "prefix (str_nat (Suc i) @ ustr ''. '') (number_lines 1 ?clean ! i)" if "i < nat n" for i
  proof -
    have "number_lines 1 ?clean ! i = str_nat (1 + i) @ ustr ''. '' @ ?clean ! i"
      by (rule nth_number_lines) (use that len in simp)
    then show ?thesis by (simp add: prefix_def)
  qed
  show ?thesis
    unfolding split using len pre by simp
qed

theorem apps_of_reply_lines_witness:
  "(1::int) \<le> 2 \<and> 10 \<notin> set (ustr ''x'')
     \<and> py_split_on 10 (apps_of_reply (ustr ''x'') 2 (ustr ''- Cooking''))
        = [ustr ''1. Cooking'', ustr ''2. A simple example of x.'']"
  using apps_of_reply_lines [of 2 "ustr ''x''" "ustr ''- Cooking''"]
  by (simp add: usable_lines_def py_strip_def re_sub_lead_def lead_char_def
        is_space_def ustr_def str_nat.simps filler_def numeral_2_eq_2)

text \<open>
  Claim C1 as stated fails for a topic that contains a newline: with an empty reply and
  \<open>n = 1\<close> the filler sentence carries the topic's newline into the output, which then has
  two lines.
\<close>

theorem apps_of_reply_topic_counterexample:
  "apps_of_reply (ustr ''a'' @ [10] @ ustr ''b'') 1 [] =
      ustr ''1. A simple example of a'' @ [10] @ ustr ''b.''
   \<and> length (py_split_on 10 (apps_of_reply (ustr ''a'' @ [10] @ ustr ''b'') 1 [])) \<noteq> 1"
  by (simp add: apps_of_reply_def usable_lines_def py_strip_def re_sub_lead_def lead_char_def
        is_space_def ustr_def pad_lines_eq py_slice_to_def str_nat.simps filler_def)

lemma py_strip_Nil [simp]: "py_strip [] = []"
  by (simp add: py_strip_def)

text \<open>
  Claim C10. A reply that is one line made only of characters of the stripped class, not
  all of them whitespace, passes the empty-line filter and is then stripped to the empty
  text: it is kept as an item, and the first output line is exactly \<open>1. \<close> with nothing
  after the number.
\<close>

theorem apps_of_reply_symbol_line:
  assumes "list_all lead_char l" and "py_strip l \<noteq> []" and "10 \<notin> set l" and "1 \<le> n"
  shows "usable_lines l = [[]]
       \<and> (if n = 1 then apps_of_reply tp n l = ustr ''1. ''
          else prefix (ustr ''1. '' @ [10]) (apps_of_reply tp n l))"
proof -
  have d: "re_sub_lead l = []"
    using assms(1) by (simp add: re_sub_lead_def list_all_iff)
  have u: "usable_lines l = [[]]"
    unfolding usable_lines_def py_split_on_single [OF assms(3)] using assms(2)
    by (simp add: d)
  have n0: "0 \<le> n" using assms(4) by simp
  obtain k where k: "nat n = Suc k" using assms(4) by (cases "nat n") auto
  have out: "apps_of_reply tp n l =
               py_join [10] (number_lines 1 ([] # replicate k (filler tp)))"
    by (simp add: apps_of_reply_def Let_def clean_lines_eq [OF n0] u k)
  have one: "str_nat (Suc 0) = [49]" by (simp add: str_nat.simps)
  show ?thesis
  proof (cases "n = 1")
    case True
    then have "k = 0" using k by simp
    then show ?thesis using u out True by (simp add: one ustr_def)
  next
    case False
    then obtain j where j: "k = Suc j" using k assms(4) by (cases k) auto
    have "prefix (ustr ''1. '' @ [10]) (apps_of_reply tp n l)"
      unfolding out j by (simp add: one ustr_def)
    then show ?thesis using u False by simp
  qed
qed

theorem apps_of_reply_symbol_line_witness:
  "list_all lead_char (ustr ''***'') \<and> py_strip (ustr ''***'') \<noteq> [] \<and> 10 \<notin> set (ustr ''***'')
     \<and> (1::int) \<le> 1 \<and> usable_lines (ustr ''***'') = [[]]
     \<and> (\<forall>tp. apps_of_reply tp 1 (ustr ''***'') = ustr ''1. '')"
proof -
  have h: "list_all lead_char (ustr ''***'')" "py_strip (ustr ''***'') \<noteq> []"
    "10 \<notin> set (ustr ''***'')" "(1::int) \<le> 1"
    by (simp_all add: lead_char_def py_strip_def is_space_def ustr_def)
  show ?thesis
    using h apps_of_reply_symbol_line [OF h] by simp
qed

section \<open>Facts about the run\<close>

lemma ustr_eq_Nil [simp]: "ustr s = [] \<longleftrightarrow> s = []"
  by (simp add: ustr_def)

lemma send_eq: "send w q r = (gemini w (length (sent r)) q, r\<lparr>sent := sent r @ [q]\<rparr>)"
  by (simp add: send_def)

lemma try_models_all_fail:
  "(\<forall>i<length ms. gemini w (length (sent r) + i) (ping (ms ! i)) = ApiError) \<Longrightarrow>
     try_models w ms r =
       (Inl Stopped,
        r\<lparr>sent := sent r @ map ping ms,
          screen := screen r @ [StError (ustr ''No working Gemini model available.'')]\<rparr>)"
proof (induction ms arbitrary: r)
  case Nil
  then show ?case by (simp add: st_error_def)
next
  case (Cons m ms)
  have first: "gemini w (length (sent r)) (ping m) = ApiError"
    using Cons.prems by (metis add.right_neutral length_greater_0_conv list.distinct(1) nth_Cons_0)
  have rest: "\<forall>i<length ms. gemini w (length (sent (r\<lparr>sent := sent r @ [ping m]\<rparr>)) + i) (ping (ms ! i)) = ApiError"
  proof (intro allI impI)
    fix i assume "i < length ms"
    then have "gemini w (length (sent r) + Suc i) (ping ((m # ms) ! Suc i)) = ApiError"
      using Cons.prems by (metis Suc_less_eq length_Cons)
    then show "gemini w (length (sent (r\<lparr>sent := sent r @ [ping m]\<rparr>)) + i) (ping (ms ! i)) = ApiError"
      by simp
  qed
  show ?case
    using Cons.IH [OF rest] first by (simp add: send_eq)
qed

lemma try_models_first_ok:
  "i < length ms \<Longrightarrow> gemini w (length (sent r) + i) (ping (ms ! i)) \<noteq> ApiError \<Longrightarrow>
   (\<forall>j<i. gemini w (length (sent r) + j) (ping (ms ! j)) = ApiError) \<Longrightarrow>
     try_models w ms r = (Inr (ms ! i), r\<lparr>sent := sent r @ map ping (take (Suc i) ms)\<rparr>)"
proof (induction ms arbitrary: r i)
  case Nil
  then show ?case by simp
next
  case (Cons m ms)
  show ?case
  proof (cases i)
    case 0
    then have "gemini w (length (sent r)) (ping m) \<noteq> ApiError"
      using Cons.prems(2) by simp
    then show ?thesis
      using 0 by (cases "gemini w (length (sent r)) (ping m)") (simp_all add: send_eq)
  next
    case (Suc k)
    have first: "gemini w (length (sent r)) (ping m) = ApiError"
      using Cons.prems(3) Suc by (metis add.right_neutral nth_Cons_0 zero_less_Suc)
    let ?r = "r\<lparr>sent := sent r @ [ping m]\<rparr>"
    have k: "k < length ms" using Cons.prems(1) Suc by simp
    have ok: "gemini w (length (sent ?r) + k) (ping (ms ! k)) \<noteq> ApiError"
      using Cons.prems(2) Suc by simp
    have before: "\<forall>j<k. gemini w (length (sent ?r) + j) (ping (ms ! j)) = ApiError"
    proof (intro allI impI)
      fix j assume "j < k"
      then have "gemini w (length (sent r) + Suc j) (ping ((m # ms) ! Suc j)) = ApiError"
        using Cons.prems(3) Suc by (metis Suc_less_eq)
      then show "gemini w (length (sent ?r) + j) (ping (ms ! j)) = ApiError" by simp
    qed
    show ?thesis
      using Cons.IH [OF k ok before] first Suc by (simp add: send_eq)
  qed
qed

lemma bind_io_Inl: "m r = (Inl e, r') \<Longrightarrow> bind_io m f r = (Inl e, r')"
  by (simp add: bind_io_def)

lemma bind_io_Inr: "m r = (Inr x, r') \<Longrightarrow> bind_io m f r = f x r'"
  by (simp add: bind_io_def)

lemma init_genai_no_key:
  "no_key (GOOGLE_API_KEY w) \<Longrightarrow>
     init_genai w r = (Inl Stopped, r\<lparr>screen := screen r @ [StError (ustr ''GOOGLE_API_KEY not found'')]\<rparr>)"
  by (simp add: init_genai_def st_error_def)

lemma init_genai_cases:
  obtains
    (NoKey) "no_key (GOOGLE_API_KEY w)"
      "init_genai w r = (Inl Stopped, r\<lparr>screen := screen r @ [StError (ustr ''GOOGLE_API_KEY not found'')]\<rparr>)"
  | (AllFail) "\<not> no_key (GOOGLE_API_KEY w)" "\<forall>i<length PREFERRED_MODELS. probe_fails w r i"
      "init_genai w r =
         (Inl Stopped,
          r\<lparr>sent := sent r @ map ping PREFERRED_MODELS,
            screen := screen r @ [StError (ustr ''No working Gemini model available.'')]\<rparr>)"
  | (Found) i where "\<not> no_key (GOOGLE_API_KEY w)" "i < length PREFERRED_MODELS"
      "\<not> probe_fails w r i" "\<forall>j<i. probe_fails w r j"
      "init_genai w r =
         (Inr (PREFERRED_MODELS ! i), r\<lparr>sent := sent r @ map ping (take (Suc i) PREFERRED_MODELS)\<rparr>)"
proof (cases "no_key (GOOGLE_API_KEY w)")
  case True
  then show ?thesis using NoKey init_genai_no_key by blast
next
  case False
  then have ig: "init_genai w r = try_models w PREFERRED_MODELS r"
    by (simp add: init_genai_def)
  show ?thesis
  proof (cases "\<forall>i<length PREFERRED_MODELS. probe_fails w r i")
    case True
    then show ?thesis
      using AllFail [OF False True] try_models_all_fail [of PREFERRED_MODELS w r] ig
      by (simp add: probe_fails_def)
  next
    case nf: False
    define i where "i = (LEAST i. i < length PREFERRED_MODELS \<and> \<not> probe_fails w r i)"
    have ex: "\<exists>i. i < length PREFERRED_MODELS \<and> \<not> probe_fails w r i" using nf by blast
    have i1: "i < length PREFERRED_MODELS \<and> \<not> probe_fails w r i"
      unfolding i_def using ex by (rule LeastI_ex)
    have i2: "\<forall>j<i. probe_fails w r j"
    proof (intro allI impI)
      fix j assume j: "j < i"
      then have "\<not> (j < length PREFERRED_MODELS \<and> \<not> probe_fails w r j)"
        unfolding i_def by (rule not_less_Least)
      moreover have "j < length PREFERRED_MODELS" using j i1 by simp
      ultimately show "probe_fails w r j" by blast
    qed
    have "try_models w PREFERRED_MODELS r =
            (Inr (PREFERRED_MODELS ! i), r\<lparr>sent := sent r @ map ping (take (Suc i) PREFERRED_MODELS)\<rparr>)"
      using i1 i2 by (intro try_models_first_ok) (simp_all add: probe_fails_def)
    then show ?thesis using Found [OF False _ _ i2] i1 ig by simp
  qed
qed

lemma call_gemini_cases:
  obtains (Fail) e where
      "call_gemini w p m r = (Inl (Raised e), r\<lparr>sent := sent r @ [\<lparr>model_name = m, prompt = p, max_output_tokens = Some 900\<rparr>]\<rparr>)"
  | (Ok) t where
      "call_gemini w p m r = (Inr t, r\<lparr>sent := sent r @ [\<lparr>model_name = m, prompt = p, max_output_tokens = Some 900\<rparr>]\<rparr>)"
  by (cases "gemini w (length (sent r)) \<lparr>model_name = m, prompt = p, max_output_tokens = Some 900\<rparr>")
     (simp_all add: call_gemini_def send_eq)

lemma step_call:
  assumes inv: "progress k r0 r1"
    and cont: "\<And>x r2. progress (Suc k) r0 r2 \<Longrightarrow> aborts_after n r0 (f x r2)"
  shows "aborts_after n r0 (bind_io (call_gemini w p m) f r1)"
proof (cases rule: call_gemini_cases [of w p m r1])
  case (Fail e)
  show ?thesis
    using inv Fail by (simp add: bind_io_def aborts_after_def progress_def no_output_since_def)
next
  case (Ok t)
  have "progress (Suc k) r0 (r1\<lparr>sent := sent r1 @ [\<lparr>model_name = m, prompt = p, max_output_tokens = Some 900\<rparr>]\<rparr>)"
    using inv by (simp add: progress_def no_output_since_def)
  then show ?thesis
    using Ok by (simp add: bind_io_def cont)
qed

lemma bind_io_assoc:
  "bind_io (bind_io m g) f = bind_io m (\<lambda>x. bind_io (g x) f)"
  by (auto simp: bind_io_def fun_eq_iff split: prod.splits sum.splits)

lemma bind_io_return: "bind_io (\<lambda>r. (Inr x, h r)) f r = f x (h r)"
  by (simp add: bind_io_def)

lemma step_section:
  assumes inv: "progress k r0 r1"
    and cont: "\<And>x r2. progress (Suc k) r0 r2 \<Longrightarrow> aborts_after n r0 (f x r2)"
  shows "aborts_after n r0 (bind_io (generate_section w m t tp nw) f r1)"
  unfolding generate_section_def bind_io_assoc
  by (rule step_call [OF inv]) (simp add: bind_io_return cont)

lemma step_apps:
  assumes inv: "progress k r0 r1"
    and cont: "\<And>x r2. progress (Suc k) r0 r2 \<Longrightarrow> aborts_after n r0 (f x r2)"
  shows "aborts_after n r0 (bind_io (generate_apps w m tp nw) f r1)"
  unfolding generate_apps_def bind_io_assoc
  by (rule step_call [OF inv]) (simp add: bind_io_return cont)

lemma step_fill:
  assumes inv: "progress k r0 r1" and k: "6 \<le> k" and t: "template w = Missing"
  shows "aborts_after 6 r0 (bind_io (fill_template w data) f r1)"
proof -
  have "fill_template w data r1 = (Inl Stopped, st_error template_msg r1)"
    using t by (simp add: fill_template_def template_msg_def)
  then show ?thesis
    using inv k
    by (simp add: bind_io_def aborts_after_def progress_def no_output_since_def st_error_def)
qed

lemma msgs_differ:
  "ustr ''Please enter a topic.'' \<noteq> template_msg"
  "ustr ''GOOGLE_API_KEY not found'' \<noteq> template_msg"
  "ustr ''No working Gemini model available.'' \<noteq> template_msg"
  by (simp_all add: template_msg_def TEMPLATE_PATH_def ustr_def)

lemma generate_rj_missing_template:
  assumes t: "template w = Missing"
  shows "aborts_after 6 r (generate_rj w f r)"
proof (cases "topic f = []")
  case True
  then show ?thesis
    by (simp add: generate_rj_def aborts_after_def no_output_since_def st_error_def msgs_differ)
next
  case False
  show ?thesis
  proof (cases rule: init_genai_cases [of w r])
    case NoKey
    then show ?thesis
      using False
      by (simp add: generate_rj_def bind_io_def aborts_after_def no_output_since_def msgs_differ)
  next
    case AllFail
    then show ?thesis
      using False
      by (simp add: generate_rj_def bind_io_def aborts_after_def no_output_since_def msgs_differ)
  next
    case (Found i)
    let ?m = "PREFERRED_MODELS ! i"
    let ?r1 = "st_success (ustr ''Using model: '' @ ?m)
                 (r\<lparr>sent := sent r @ map ping (take (Suc i) PREFERRED_MODELS)\<rparr>)"
    have p1: "progress 1 r ?r1"
      using Found(2) by (simp add: progress_def no_output_since_def st_success_def)
    have "aborts_after 6 r
      (bind_io (generate_section w ?m (ustr ''Experiences'') (topic f) 150) (\<lambda>exp.
        bind_io (generate_section w ?m (ustr ''Feelings'') (topic f) 150) (\<lambda>feel.
        bind_io (generate_section w ?m (ustr ''Insights'') (topic f) 300) (\<lambda>ins.
        bind_io (generate_section w ?m (ustr ''Conclusion'') (topic f) 100) (\<lambda>conc.
        bind_io (generate_apps w ?m (topic f) 5) (\<lambda>apps.
        bind_io (fill_template w (placeholder_map f exp feel ins apps conc)) (\<lambda>docx_output.
        bind_io (\<lambda>r. (Inr (), st_download_button (ustr ''Download DOCX'') docx_output
                                 (ustr ''Journal_Output.docx'') r)) (\<lambda>_.
        bind_io (convert_to_pdf w docx_output) (\<lambda>pdf_bytes r.
          (Inr (), st_download_button (ustr ''Download PDF'') pdf_bytes
                      (ustr ''Journal_Output.pdf'') r))))))))) ?r1)"
      apply (rule step_section [OF p1])
      apply (rule step_section, assumption)
      apply (rule step_section, assumption)
      apply (rule step_section, assumption)
      apply (rule step_apps, assumption)
      apply (rule step_fill [OF _ _ t], assumption)
      apply simp
      done
    then show ?thesis
      using False
      by (simp add: generate_rj_def bind_io_Inr [of "init_genai w" r, OF Found(5)] bind_io_return)
  qed
qed

text \<open>
  Claim C4, amended. If the template file does not exist, the Generate action always ends
  aborted, with no download offered and the disk untouched; and when it is stopped with
  the message of the missing template, at least six requests (one successful test request
  and the five generation requests) have been sent to the model before.
\<close>

theorem missing_template_aborts:
  assumes "template w = Missing"
  shows "\<exists>e r'. generate_rj w f r = (Inl e, r') \<and> no_output_since r r'
           \<and> (e = Stopped \<and> screen r' \<noteq> [] \<and> last (screen r') = StError template_msg
                \<longrightarrow> length (sent r) + 6 \<le> length (sent r'))"
proof -
  obtain res r' where out: "generate_rj w f r = (res, r')"
    by (cases "generate_rj w f r") blast
  have "aborts_after 6 r (res, r')"
    using generate_rj_missing_template [OF assms, of r f] out by simp
  then show ?thesis
    unfolding out by (cases res) (auto simp: aborts_after_def split: if_splits)
qed

lemma example_run:
  "fst (generate_rj example_world example_form fresh_run) = Inl Stopped"
  "length (sent (snd (generate_rj example_world example_form fresh_run))) = 7"
  "screen (snd (generate_rj example_world example_form fresh_run)) =
     [StSuccess (ustr ''Using model: gemini-2.0-pro''), StError template_msg]"
  by (simp_all add: generate_rj_def example_world_def example_form_def fresh_run_def bind_io_def
      init_genai_def no_key_def PREFERRED_MODELS_def send_def generate_section_def
      generate_apps_def call_gemini_def fill_template_def st_error_def st_success_def
      template_msg_def ustr_def)

theorem missing_template_aborts_witness:
  "template example_world = Missing
   \<and> fst (generate_rj example_world example_form fresh_run) = Inl Stopped
   \<and> last (screen (snd (generate_rj example_world example_form fresh_run))) = StError template_msg
   \<and> length (sent fresh_run) + 6 \<le> length (sent (snd (generate_rj example_world example_form fresh_run)))
   \<and> no_output_since fresh_run (snd (generate_rj example_world example_form fresh_run))"
proof -
  have t: "template example_world = Missing" by (simp add: example_world_def)
  obtain e r' where out: "generate_rj example_world example_form fresh_run = (Inl e, r')"
    and no: "no_output_since fresh_run r'"
    using missing_template_aborts [OF t, of example_form fresh_run] by blast
  have "no_output_since fresh_run (snd (generate_rj example_world example_form fresh_run))"
    using no by (simp add: out)
  moreover have "length (sent fresh_run) = 0" by (simp add: fresh_run_def)
  ultimately show ?thesis
    using t example_run by simp
qed

text \<open>
  Claim C4 as stated fails: with the template missing, a topic, a credential and a service
  that answers from its second request on, seven requests are sent before the run stops.
\<close>

theorem missing_template_counterexample:
  "template example_world = Missing
   \<and> topic example_form \<noteq> []
   \<and> length (sent (snd (generate_rj example_world example_form fresh_run))) = 7
   \<and> sent fresh_run = []"
  using example_run(2) by (simp add: example_world_def example_form_def fresh_run_def)

text \<open>
  Claim C5. If the topic is the empty string, the Generate action stops at once: the page
  shows the message asking for a topic, no request is sent to the model, no download is
  offered and the disk is untouched.
\<close>

theorem empty_topic_aborts:
  assumes "topic f = []"
  shows "generate_rj w f r =
           (Inl Stopped, r\<lparr>screen := screen r @ [StError (ustr ''Please enter a topic.'')]\<rparr>)
       \<and> sent (snd (generate_rj w f r)) = sent r
       \<and> no_output_since r (snd (generate_rj w f r))"
  using assms by (simp add: generate_rj_def st_error_def no_output_since_def)

theorem empty_topic_aborts_witness:
  "topic (example_form\<lparr>topic := []\<rparr>) = []
   \<and> generate_rj working_world (example_form\<lparr>topic := []\<rparr>) fresh_run =
        (Inl Stopped, fresh_run\<lparr>screen := [StError (ustr ''Please enter a topic.'')]\<rparr>)
   \<and> sent (snd (generate_rj working_world (example_form\<lparr>topic := []\<rparr>) fresh_run)) = []"
  using empty_topic_aborts [of "example_form\<lparr>topic := []\<rparr>" working_world fresh_run]
  by (simp add: fresh_run_def)

text \<open>
  Claim C6. \<open>init_genai\<close> stops the run exactly when the credential is missing (not set, or
  empty) or the test request of every candidate fails, and otherwise returns the first
  candidate of the list whose test request succeeds. A failure is a stop with one message
  on the page; the test requests go to an initial part of the list, one each, in order; and
  the Generate action then ends with that stop, without output.
\<close>

theorem init_genai_selects:
  "(fst (init_genai w r) = Inl Stopped \<longleftrightarrow>
      no_key (GOOGLE_API_KEY w) \<or> (\<forall>i<length PREFERRED_MODELS. probe_fails w r i))
   \<and> (fst (init_genai w r) = Inr m \<longleftrightarrow>
        \<not> no_key (GOOGLE_API_KEY w) \<and>
        (\<exists>i<length PREFERRED_MODELS.
           m = PREFERRED_MODELS ! i \<and> \<not> probe_fails w r i \<and> (\<forall>j<i. probe_fails w r j)))
   \<and> (fst (init_genai w r) = Inl e \<longrightarrow>
        e = Stopped \<and> (\<exists>msg. screen (snd (init_genai w r)) = screen r @ [StError msg]))
   \<and> (\<exists>k\<le>length PREFERRED_MODELS.
        sent (snd (init_genai w r)) = sent r @ map ping (take k PREFERRED_MODELS))
   \<and> (topic f \<noteq> [] \<and> fst (init_genai w r) = Inl e \<longrightarrow>
        generate_rj w f r = (Inl e, snd (init_genai w r))
        \<and> no_output_since r (snd (init_genai w r)))"
proof (cases rule: init_genai_cases [of w r])
  case NoKey
  have "\<exists>k\<le>length PREFERRED_MODELS. sent r = sent r @ map ping (take k PREFERRED_MODELS)"
    by (rule exI [of _ 0]) simp
  then show ?thesis
    using NoKey by (simp add: generate_rj_def bind_io_def no_output_since_def)
next
  case AllFail
  have "\<exists>k\<le>length PREFERRED_MODELS.
          sent r @ map ping PREFERRED_MODELS = sent r @ map ping (take k PREFERRED_MODELS)"
    by (rule exI [of _ "length PREFERRED_MODELS"]) simp
  then show ?thesis
    using AllFail by (simp add: generate_rj_def bind_io_def no_output_since_def)
next
  case (Found i)
  have uniq: "i' = i" if "i' < length PREFERRED_MODELS" "\<not> probe_fails w r i'"
    "\<forall>j<i'. probe_fails w r j" for i'
    using that Found(3,4) by (meson nat_neq_iff)
  have k: "\<exists>k\<le>length PREFERRED_MODELS.
          sent r @ map ping (take (Suc i) PREFERRED_MODELS) = sent r @ map ping (take k PREFERRED_MODELS)"
    using Found(2) by (intro exI [of _ "Suc i"]) simp
  have "(\<exists>i'<length PREFERRED_MODELS.
           m = PREFERRED_MODELS ! i' \<and> \<not> probe_fails w r i' \<and> (\<forall>j<i'. probe_fails w r j))
        \<longleftrightarrow> m = PREFERRED_MODELS ! i"
    using uniq Found(2,3,4) by blast
  then show ?thesis
    using Found k by (auto simp: eq_commute [of m])
qed

theorem init_genai_selects_witness:
  "\<not> no_key (GOOGLE_API_KEY example_world)
   \<and> probe_fails example_world fresh_run 0 \<and> \<not> probe_fails example_world fresh_run 1
   \<and> fst (init_genai example_world fresh_run) = Inr (ustr ''gemini-2.0-pro'')
   \<and> no_key (GOOGLE_API_KEY (example_world\<lparr>GOOGLE_API_KEY := None\<rparr>))
   \<and> fst (init_genai (example_world\<lparr>GOOGLE_API_KEY := None\<rparr>) fresh_run) = Inl Stopped"
proof -
  have a: "\<not> no_key (GOOGLE_API_KEY example_world)"
    "probe_fails example_world fresh_run 0" "\<not> probe_fails example_world fresh_run 1"
    "PREFERRED_MODELS ! 1 = ustr ''gemini-2.0-pro''" "1 < length PREFERRED_MODELS"
    by (simp_all add: example_world_def no_key_def probe_fails_def fresh_run_def
        PREFERRED_MODELS_def)
  have "\<exists>i<length PREFERRED_MODELS. ustr ''gemini-2.0-pro'' = PREFERRED_MODELS ! i
          \<and> \<not> probe_fails example_world fresh_run i \<and> (\<forall>j<i. probe_fails example_world fresh_run j)"
    using a by (intro exI [of _ 1]) (simp add: less_Suc_eq)
  then have 1: "fst (init_genai example_world fresh_run) = Inr (ustr ''gemini-2.0-pro'')"
    using init_genai_selects [of example_world fresh_run "ustr ''gemini-2.0-pro''"] a(1) by blast
  have b: "no_key (GOOGLE_API_KEY (example_world\<lparr>GOOGLE_API_KEY := None\<rparr>))"
    by (simp add: no_key_def)
  then have 2: "fst (init_genai (example_world\<lparr>GOOGLE_API_KEY := None\<rparr>) fresh_run) = Inl Stopped"
    using init_genai_selects [of "example_world\<lparr>GOOGLE_API_KEY := None\<rparr>" fresh_run] by blast
  show ?thesis using a 1 b 2 by simp
qed


lemma rmtree_kept:
  "\<not> prefix d p \<Longrightarrow> is_dir (rmtree d fs) p = is_dir fs p \<and> contents (rmtree d fs) p = contents fs p"
  by (simp add: rmtree_def)



end
